theory Spec2Isabelle
  imports Main "HOL-Library.AList"
begin

section \<open>JavaScript values and objects\<close>

text \<open>
  The values that travel through the section bridge: manifest options, section records and
  cards. Numbers are the integers the code handles (row counts, pixel widths).
  An object is its list of own enumerable properties in insertion order; the keys of a
  well-formed object are distinct. (JavaScript lists keys that are array indices before
  the others; the option names and card fields handled here are not of that form.)
\<close>

datatype jsval =
    Undefined
  | Null
  | Bool bool
  | Num int
  | Str string
  | Arr "jsval list"
  | Obj "(string \<times> jsval) list"

type_synonym obj = "(string \<times> jsval) list"

datatype error = TypeError

text \<open>The truth value of \<open>v\<close> in a condition (\<open>if (v)\<close>, \<open>v && ...\<close>, \<open>!v\<close>).\<close>

fun truthy :: "jsval \<Rightarrow> bool" where
  "truthy Undefined = False"
| "truthy Null = False"
| "truthy (Bool b) = b"
| "truthy (Num n) = (n \<noteq> 0)"
| "truthy (Str s) = (s \<noteq> [])"
| "truthy (Arr xs) = True"
| "truthy (Obj ps) = True"

text \<open>\<open>o[k]\<close>: reading a property that the object does not have gives \<open>undefined\<close>.\<close>

definition get_prop :: "obj \<Rightarrow> string \<Rightarrow> jsval" where
  "get_prop ob k = (case map_of ob k of None \<Rightarrow> Undefined | Some v \<Rightarrow> v)"

text \<open>\<open>o[k] = v\<close>: an existing property keeps its place, a new one goes last.\<close>

definition set_prop :: "string \<Rightarrow> jsval \<Rightarrow> obj \<Rightarrow> obj" where
  "set_prop k v ob = AList.update k v ob"

text \<open>
  \<open>Object.assign(target, source)\<close>: every own enumerable property of the source is read and
  written to the target, in order. A property whose value is \<open>undefined\<close> is a property like
  any other and is copied too.
\<close>

definition object_assign :: "obj \<Rightarrow> obj \<Rightarrow> obj" where
  "object_assign target source = fold (\<lambda>(k, v). set_prop k v) source target"

section \<open>The section bridge: construction of the section options\<close>

text \<open>
  Lines 24 to 28 of the constructor:
  \<^verbatim>\<open>for (const prop in manifestOptions) {
    if (manifestOptions[prop] === null) { manifestOptions[prop] = undefined; } }\<close>
  The property stays on the object; only its value changes.
\<close>

definition null_to_undefined :: "obj \<Rightarrow> obj" where
  "null_to_undefined ob =
     fold (\<lambda>prop m. if get_prop m prop = Null then set_prop prop Undefined m else m)
       (map fst ob) ob"

text \<open>The first argument of \<open>Object.assign\<close> on line 30, with \<open>this.extension.id\<close> as title.\<close>

definition default_options :: "string \<Rightarrow> obj" where
  "default_options extension_id =
     [(''title'', Str extension_id),
      (''maxRows'', Num 1),
      (''contextMenuOptions'',
         Arr [Str ''OpenInNewWindow'', Str ''OpenInPrivateWindow'', Str ''Separator'',
              Str ''BlockUrl'']),
      (''emptyState'',
         Obj [(''message'', Obj [(''defaultMessage'', Str ''Loading'')]),
              (''icon'', Str ''check'')])]"

definition startsWith :: "string \<Rightarrow> string \<Rightarrow> bool" where
  "startsWith s p = (take (length p) s = p)"

text \<open>
  Lines 45 to 47. A truthy icon that is not a string has no \<open>startsWith\<close> method, so the
  call raises. \<open>getURL\<close> is the extension's own \<open>getURL\<close>, a parameter here.
\<close>

definition resolve_icon :: "(string \<Rightarrow> string) \<Rightarrow> obj \<Rightarrow> error + obj" where
  "resolve_icon getURL sectionOptions =
     (let icon = get_prop sectionOptions ''icon'' in
      if truthy icon then
        (case icon of
           Str s \<Rightarrow>
             if \<not> startsWith s ''moz-extension://''
             then Inr (set_prop ''icon'' (Str (getURL s)) sectionOptions)
             else Inr sectionOptions
         | _ \<Rightarrow> Inl TypeError)
      else Inr sectionOptions)"

text \<open>
  The constructor of \<open>API\<close>, lines 18 to 48. The manifest's \<open>new_tab_section_options\<close> is
  \<open>None\<close> when the manifest has none (\<open>Object.assign\<close> skips a null or undefined source).
  The result is \<open>this.sectionOptions\<close>.
\<close>

definition API_constructor :: "string \<Rightarrow> (string \<Rightarrow> string) \<Rightarrow> obj option \<Rightarrow> error + obj" where
  "API_constructor extension_id getURL new_tab_section_options =
     (let manifestOptions =
            object_assign [] (case new_tab_section_options of None \<Rightarrow> [] | Some m \<Rightarrow> m);
          manifestOptions = null_to_undefined manifestOptions;
          sectionOptions = object_assign (default_options extension_id) manifestOptions
      in resolve_icon getURL sectionOptions)"

section \<open>The host registry\<close>

text \<open>
  \<open>SectionsManager\<close> and \<open>EventManager\<close> are modules of the host, imported on lines 7
  and 8. The bridge uses the registry's \<open>initialized\<close> flag, its \<open>sections\<close> map, the
  calls \<open>addSection\<close>, \<open>updateSection\<close>, \<open>enableSection\<close>, \<open>removeSection\<close>,
  \<open>onceInitialized\<close> and its notifications.

  The two functions the bridge hands to \<open>onceInitialized\<close>: \<open>updateSection\<close> (line 58)
  and the arrow function of \<open>enable\<close> (line 99).
\<close>

datatype callback = UpdateSection | EnableSection

text \<open>
  The listeners that one subscription to \<open>onInitialized\<close> registers with the registry
  (lines 119 to 131). The number names the subscription, that is, the \<open>fire\<close> object the
  listener closes over.
\<close>

datatype listener = InitListener nat | EnabledListener nat

datatype notification = INIT | ENABLE_SECTION string

text \<open>
  The state on the host side: the bridge's \<open>options\<close> (one record per extension,
  mutated in place by the setters), the registry, and the calls of \<open>fire.async()\<close> made
  so far, by subscription. The registry keeps its own copy of each section record.
\<close>

record host =
  options :: obj
  initialized :: bool
  sections :: "(string \<times> obj) list"
  pending :: "callback list"
  listeners :: "listener list"
  updates :: "(string \<times> obj \<times> bool) list"
  fired :: "nat list"

definition new_host :: "obj \<Rightarrow> host" where
  "new_host sectionOptions =
     \<lparr>options = sectionOptions, initialized = False, sections = [], pending = [],
      listeners = [], updates = [], fired = []\<rparr>"

text \<open>\<open>SectionsManager.sections.has(id)\<close>.\<close>

definition SM_has :: "string \<Rightarrow> host \<Rightarrow> bool" where
  "SM_has sid h = (map_of (sections h) sid \<noteq> None)"

text \<open>
  Modelled from the spec: the host registry's \<open>update(id, partialOptions, broadcast)\<close>,
  which is not part of this repository. The partial options are merged into the section's
  record, and the registry issues one update notification that carries them and the
  broadcast flag (\<open>updates\<close> lists the notifications issued). Nothing happens for an
  identifier that is not registered.
\<close>

definition SM_updateSection :: "string \<Rightarrow> obj \<Rightarrow> bool \<Rightarrow> host \<Rightarrow> host" where
  "SM_updateSection sid opts shouldBroadcast h =
     (case map_of (sections h) sid of
        None \<Rightarrow> h
      | Some sec \<Rightarrow>
          h\<lparr>sections := AList.update sid (object_assign sec opts) (sections h),
            updates := updates h @ [(sid, opts, shouldBroadcast)]\<rparr>)"

text \<open>
  Modelled from the spec: the host registry's \<open>add(id, options)\<close>, which adds the section
  with the given options if it is not already present.
\<close>

definition SM_addSection :: "string \<Rightarrow> obj \<Rightarrow> host \<Rightarrow> host" where
  "SM_addSection sid opts h =
     (if SM_has sid h then h else h\<lparr>sections := sections h @ [(sid, opts)]\<rparr>)"

text \<open>Modelled from the spec: the host registry's \<open>remove(id)\<close>.\<close>

definition SM_removeSection :: "string \<Rightarrow> host \<Rightarrow> host" where
  "SM_removeSection sid h = h\<lparr>sections := AList.delete sid (sections h)\<rparr>"

text \<open>\<open>fire.async()\<close> of subscription \<open>k\<close>: the extension's listener is asked to run.\<close>

definition fire_async :: "nat \<Rightarrow> host \<Rightarrow> host" where
  "fire_async k h = h\<lparr>fired := fired h @ [k]\<rparr>"

text \<open>
  Lines 119 to 124, for the bridge of extension \<open>id\<close>:
  \<^verbatim>\<open>const initListener = () =>
    SectionsManager.sections.has(id) && SectionsManager.sections.get(id).enabled && fire.async();
  const enabledListener = (_, enabledSection) => enabledSection === id && fire.async();\<close>
\<close>

definition initListener :: "string \<Rightarrow> nat \<Rightarrow> host \<Rightarrow> host" where
  "initListener sid k h =
     (case map_of (sections h) sid of
        None \<Rightarrow> h
      | Some sec \<Rightarrow> if truthy (get_prop sec ''enabled'') then fire_async k h else h)"

definition enabledListener :: "string \<Rightarrow> nat \<Rightarrow> string \<Rightarrow> host \<Rightarrow> host" where
  "enabledListener sid k enabledSection h =
     (if enabledSection = sid then fire_async k h else h)"

text \<open>
  Modelled from the spec: the registry's event stream. A notification is handed to every
  listener registered for its kind, in the order of registration.
\<close>

fun deliver :: "string \<Rightarrow> notification \<Rightarrow> listener \<Rightarrow> host \<Rightarrow> host" where
  "deliver sid INIT (InitListener k) h = initListener sid k h"
| "deliver sid (ENABLE_SECTION s) (EnabledListener k) h = enabledListener sid k s h"
| "deliver sid n l h = h"

definition SM_emit :: "string \<Rightarrow> notification \<Rightarrow> host \<Rightarrow> host" where
  "SM_emit sid n h = fold (deliver sid n) (listeners h) h"

text \<open>
  Modelled from the spec: the host registry's \<open>enable(id)\<close>, which marks the section
  enabled and notifies \<open>ENABLE_SECTION\<close> with the section's identifier.
\<close>

definition SM_enableSection :: "string \<Rightarrow> string \<Rightarrow> host \<Rightarrow> host" where
  "SM_enableSection sid s h =
     SM_emit sid (ENABLE_SECTION s)
       (case map_of (sections h) s of
          None \<Rightarrow> h
        | Some sec \<Rightarrow>
            h\<lparr>sections := AList.update s (set_prop ''enabled'' (Bool True) sec) (sections h)\<rparr>)"

section \<open>The section bridge: operations\<close>

text \<open>
  Lines 58 and 59; \<open>options\<close> is read when the function runs, not when it is queued:
  \<^verbatim>\<open>const updateSection = () => SectionsManager.sections.has(id) &&
    SectionsManager.updateSection(id, options, true);\<close>
\<close>

definition updateSection :: "string \<Rightarrow> host \<Rightarrow> host" where
  "updateSection sid h =
     (if SM_has sid h then SM_updateSection sid (options h) True h else h)"

fun run_callback :: "string \<Rightarrow> callback \<Rightarrow> host \<Rightarrow> host" where
  "run_callback sid UpdateSection h = updateSection sid h"
| "run_callback sid EnableSection h = SM_enableSection sid sid (SM_addSection sid (options h) h)"

text \<open>
  Modelled from the spec: the registry's \<open>onceInitialized(callback)\<close>. The callback runs at
  once when the registry is initialized; otherwise it is queued (\<open>pending\<close>), and the
  registry runs it once, with \<open>run_callback\<close>, when it initializes.
\<close>

definition SM_onceInitialized :: "string \<Rightarrow> callback \<Rightarrow> host \<Rightarrow> host" where
  "SM_onceInitialized sid cb h =
     (if initialized h then run_callback sid cb h else h\<lparr>pending := pending h @ [cb]\<rparr>)"

text \<open>
  Modelled from the spec: the initialisation of the registry. The registry becomes
  initialized, runs every function queued by \<open>onceInitialized\<close> once, in the order
  queued, and notifies \<open>INIT\<close>. The spec does not say whether the queued functions run
  before the listeners of \<open>INIT\<close> are notified or after; \<open>queue_first\<close> selects the order.
\<close>

definition SM_init :: "bool \<Rightarrow> string \<Rightarrow> host \<Rightarrow> host" where
  "SM_init queue_first sid h =
     (let h0 = h\<lparr>initialized := True, pending := []\<rparr> in
      if queue_first
      then SM_emit sid INIT (fold (run_callback sid) (pending h) h0)
      else fold (run_callback sid) (pending h) (SM_emit sid INIT h0))"

text \<open>Line 63.\<close>

definition onUpdateOption :: "string \<Rightarrow> host \<Rightarrow> host" where
  "onUpdateOption sid h = SM_onceInitialized sid UpdateSection h"

text \<open>The setters, lines 66 to 89. \<open>setIcon\<close> assigns \<open>options.icons\<close>.\<close>

definition setTitle :: "string \<Rightarrow> jsval \<Rightarrow> host \<Rightarrow> host" where
  "setTitle sid title h = onUpdateOption sid (h\<lparr>options := set_prop ''title'' title (options h)\<rparr>)"

definition setIcon :: "string \<Rightarrow> jsval \<Rightarrow> host \<Rightarrow> host" where
  "setIcon sid icon h = onUpdateOption sid (h\<lparr>options := set_prop ''icons'' icon (options h)\<rparr>)"

definition setMaxRows :: "string \<Rightarrow> jsval \<Rightarrow> host \<Rightarrow> host" where
  "setMaxRows sid maxRows h =
     onUpdateOption sid (h\<lparr>options := set_prop ''maxRows'' maxRows (options h)\<rparr>)"

definition setEmptyState :: "string \<Rightarrow> jsval \<Rightarrow> host \<Rightarrow> host" where
  "setEmptyState sid emptyState h =
     onUpdateOption sid (h\<lparr>options := set_prop ''emptyState'' emptyState (options h)\<rparr>)"

definition setInfoOption :: "string \<Rightarrow> jsval \<Rightarrow> host \<Rightarrow> host" where
  "setInfoOption sid infoOption h =
     onUpdateOption sid (h\<lparr>options := set_prop ''infoOption'' infoOption (options h)\<rparr>)"

text \<open>The five setters by name, and the field of the options that each assigns.\<close>

datatype setter = SetTitle | SetIcon | SetMaxRows | SetEmptyState | SetInfoOption

fun call_setter :: "setter \<Rightarrow> string \<Rightarrow> jsval \<Rightarrow> host \<Rightarrow> host" where
  "call_setter SetTitle = setTitle"
| "call_setter SetIcon = setIcon"
| "call_setter SetMaxRows = setMaxRows"
| "call_setter SetEmptyState = setEmptyState"
| "call_setter SetInfoOption = setInfoOption"

fun written_field :: "setter \<Rightarrow> string" where
  "written_field SetTitle = ''title''"
| "written_field SetIcon = ''icons''"
| "written_field SetMaxRows = ''maxRows''"
| "written_field SetEmptyState = ''emptyState''"
| "written_field SetInfoOption = ''infoOption''"

text \<open>\<open>enable\<close> (lines 98 to 103) and \<open>disable\<close> (lines 105 to 107).\<close>

definition enable :: "string \<Rightarrow> host \<Rightarrow> host" where
  "enable sid h = SM_onceInitialized sid EnableSection h"

definition disable :: "string \<Rightarrow> host \<Rightarrow> host" where
  "disable sid h = SM_removeSection sid h"

text \<open>\<open>addCards\<close>, lines 109 to 113.\<close>

definition addCards :: "string \<Rightarrow> jsval \<Rightarrow> bool \<Rightarrow> host \<Rightarrow> host" where
  "addCards sid cards shouldBroadcast h =
     (if SM_has sid h then SM_updateSection sid [(''rows'', cards)] shouldBroadcast h else h)"

text \<open>
  Subscribing listener \<open>k\<close> to \<open>onInitialized\<close> runs the function of lines 116 to 137:
  \<open>initListener\<close> is called at once when the registry is initialized, then both listeners
  are registered. Removing the listener takes both away again.
\<close>

definition onInitialized_addListener :: "string \<Rightarrow> nat \<Rightarrow> host \<Rightarrow> host" where
  "onInitialized_addListener sid k h =
     (let h1 = (if initialized h then initListener sid k h else h)
      in h1\<lparr>listeners := listeners h1 @ [InitListener k, EnabledListener k]\<rparr>)"

definition onInitialized_removeListener :: "nat \<Rightarrow> host \<Rightarrow> host" where
  "onInitialized_removeListener k h =
     h\<lparr>listeners := removeAll (EnabledListener k) (removeAll (InitListener k) (listeners h))\<rparr>"

section \<open>The card poller: fetching the cards\<close>

text \<open>
  The remote source answers with \<open>{results: [{abstract, title, url, multimedia: [{type,
  width, url}, ...]}, ...]}\<close>. A media item carries the three fields that the loop reads;
  its width is an integer, its type and url are any values. An entry carries the three
  fields that are copied into the card, whatever their values (\<open>undefined\<close> when the
  property is missing), and its \<open>multimedia\<close> array.
\<close>

record media =
  mtype :: jsval
  width :: int
  murl :: jsval

record entry =
  abstract :: jsval
  title :: jsval
  url :: jsval
  multimedia :: "media list"

text \<open>
  How the request of \<open>getCards\<close> ends. \<open>NetworkError\<close>: no \<open>load\<close> event arrives.
  \<open>Malformed\<close>: the \<open>load\<close> listener raises before it reaches the entries, because
  \<open>JSON.parse\<close> rejects the body or the parsed value has no \<open>results\<close> array.
  \<open>Results\<close>: the body parses to an envelope with this \<open>results\<close> array. An element of
  the array is \<open>Some\<close> entry, or \<open>None\<close> when it is not an object with a \<open>multimedia\<close>
  array (the property is missing, null or a string, or the element itself is null): the
  callback of \<open>map\<close> raises on such an element, at the destructuring of line 13 or at
  \<open>multimedia.forEach\<close> on line 16.
\<close>

datatype response = NetworkError | Malformed | Results "entry option list"

text \<open>
  Lines 14 to 20: the loop over \<open>multimedia\<close>, started with \<open>{width: 0, url: ""}\<close>; the
  result is the final \<open>image\<close> as the pair of its width and url; \<open>image_step\<close> is the
  body of the loop.
\<close>

definition image_step :: "media \<Rightarrow> int \<times> jsval \<Rightarrow> int \<times> jsval" where
  "image_step m img =
     (if mtype m = Str ''image'' \<and> width m > fst img \<and> width m \<le> 300
      then (width m, murl m) else img)"

definition pick_image :: "media list \<Rightarrow> int \<times> jsval" where
  "pick_image ms = fold image_step ms (0, Str '''')"

text \<open>Lines 21 to 27: the card built for one entry.\<close>

definition to_card :: "entry \<Rightarrow> jsval" where
  "to_card e =
     Obj [(''title'', title e),
          (''url'', url e),
          (''description'', abstract e),
          (''image'', snd (pick_image (multimedia e))),
          (''hostname'', Str ''nytimes'')]"

text \<open>
  \<open>results.slice(0, 20).map(...)\<close>, lines 13 to 28: the cards of the elements in order, or
  \<open>None\<close> when the callback raises on one of them.
\<close>

fun map_entries :: "entry option list \<Rightarrow> jsval list option" where
  "map_entries [] = Some []"
| "map_entries (None # es) = None"
| "map_entries (Some e # es) =
     (case map_entries es of None \<Rightarrow> None | Some cs \<Rightarrow> Some (to_card e # cs))"

text \<open>
  \<open>getCards\<close>, lines 7 to 33: the value the promise resolves with, or \<open>None\<close> when the
  promise never settles (the code has no \<open>error\<close> listener and never calls \<open>reject\<close>, and
  a listener that raises does not reach \<open>resolve\<close>).
\<close>

definition getCards :: "response \<Rightarrow> jsval list option" where
  "getCards r =
     (case r of
        NetworkError \<Rightarrow> None
      | Malformed \<Rightarrow> None
      | Results results \<Rightarrow> map_entries (take 20 results))"

section \<open>The card poller: refreshing and publishing\<close>

text \<open>
  The extension registers one function, \<open>update\<close>, on \<open>onSystemTick\<close>.

  Modelled from the spec: the tick stream, an event of the host. The spec counts the
  listeners of the tick and requires of the poller that it never subscribes twice; the
  stream is the list of the subscriptions made, one for each call of \<open>addListener\<close>, and
  \<open>removeListener\<close> ends the subscriptions of the function it is given.
\<close>

datatype handler = Update

definition addListener :: "handler \<Rightarrow> handler list \<Rightarrow> handler list" where
  "addListener f ls = ls @ [f]"

definition removeListener :: "handler \<Rightarrow> handler list \<Rightarrow> handler list" where
  "removeListener f ls = removeAll f ls"

text \<open>
  \<open>update\<close> is awaited by \<open>init\<close> (line 49), which then subscribes it to the tick, or is
  called by the tick itself, where nothing follows it.
\<close>

datatype caller = FromInit | FromTick

text \<open>
  The state of the background script: its two variables (\<open>None\<close> is \<open>undefined\<close>), the
  listeners of the tick, the calls of \<open>update\<close> that are suspended at
  \<open>await getCards()\<close>, each with its caller, and the host that the bridge acts on.
\<close>

record poller =
  lastUpdated :: "int option"
  cards :: "jsval list option"
  tick_listeners :: "handler list"
  inflight :: "caller list"
  bridge :: host

definition new_poller :: "host \<Rightarrow> poller" where
  "new_poller h =
     \<lparr>lastUpdated = None, cards = None, tick_listeners = [], inflight = [], bridge = h\<rparr>"

definition UPDATE_INTERVAL :: int where
  "UPDATE_INTERVAL = 15 * 60 * 1000"

text \<open>
  The condition of line 39, \<open>!cards || Date.now() - lastUpdated > UPDATE_INTERVAL\<close>. An
  array is truthy even when empty; with \<open>lastUpdated\<close> undefined the difference is \<open>NaN\<close>
  and the comparison is false.
\<close>

definition stale :: "poller \<Rightarrow> int \<Rightarrow> bool" where
  "stale p now =
     (cards p = None \<or>
      (case lastUpdated p of None \<Rightarrow> False | Some l \<Rightarrow> now - l > UPDATE_INTERVAL))"

text \<open>\<open>browser.newTabSection.addCards(cards, true)\<close> for the extension \<open>sid\<close>.\<close>

definition publish :: "string \<Rightarrow> jsval list \<Rightarrow> poller \<Rightarrow> poller" where
  "publish sid cs p = p\<lparr>bridge := addCards sid (Arr cs) True (bridge p)\<rparr>"

text \<open>What runs once \<open>update\<close> has returned: line 50 of \<open>init\<close>, nothing after a tick.\<close>

fun after_update :: "caller \<Rightarrow> poller \<Rightarrow> poller" where
  "after_update FromInit p = p\<lparr>tick_listeners := addListener Update (tick_listeners p)\<rparr>"
| "after_update FromTick p = p"

text \<open>
  \<open>update\<close>, lines 38 to 46, at time \<open>now\<close>, up to the point where it is suspended at
  \<open>await getCards()\<close> or has finished.
\<close>

definition update :: "string \<Rightarrow> caller \<Rightarrow> int \<Rightarrow> poller \<Rightarrow> poller" where
  "update sid who now p =
     (if stale p now then p\<lparr>inflight := inflight p @ [who]\<rparr>
      else (case cards p of
              Some cs \<Rightarrow> after_update who (publish sid cs p)
            | None \<Rightarrow> after_update who p))"

text \<open>
  The rest of \<open>update\<close> once \<open>getCards\<close> has resolved with \<open>cs\<close>, at time \<open>now\<close>: lines 40
  to 42, then the caller goes on.
\<close>

definition update_resolved :: "string \<Rightarrow> caller \<Rightarrow> jsval list \<Rightarrow> int \<Rightarrow> poller \<Rightarrow> poller" where
  "update_resolved sid who cs now p =
     after_update who ((publish sid cs (p\<lparr>cards := Some cs\<rparr>))\<lparr>lastUpdated := Some now\<rparr>)"

definition init :: "string \<Rightarrow> int \<Rightarrow> poller \<Rightarrow> poller" where
  "init sid now p = update sid FromInit now p"

definition uninit :: "poller \<Rightarrow> poller" where
  "uninit p = p\<lparr>tick_listeners := removeListener Update (tick_listeners p)\<rparr>"

text \<open>
  What the background script reacts to: the two lifecycle events of the bridge, the tick,
  and the end of the \<open>i\<close>-th request in flight. Events that read the clock carry the
  value of \<open>Date.now()\<close>.
\<close>

datatype event =
    Initialized int
  | Uninitialized
  | SystemTick int
  | RequestEnded nat response int

fun step :: "string \<Rightarrow> event \<Rightarrow> poller \<Rightarrow> poller" where
  "step sid (Initialized now) p = init sid now p"
| "step sid Uninitialized p = uninit p"
| "step sid (SystemTick now) p = fold (\<lambda>f. update sid FromTick now) (tick_listeners p) p"
| "step sid (RequestEnded i r now) p =
     (if i < length (inflight p) then
        (let who = inflight p ! i;
             p' = p\<lparr>inflight := take i (inflight p) @ drop (Suc i) (inflight p)\<rparr>
         in case getCards r of
              None \<Rightarrow> p'
            | Some cs \<Rightarrow> update_resolved sid who cs now p')
      else p)"

definition run :: "string \<Rightarrow> event list \<Rightarrow> poller \<Rightarrow> poller" where
  "run sid evs p = fold (step sid) evs p"

section \<open>What the specification describes\<close>

text \<open>
  The image that the specification describes for a list of media items: the url of the
  first item, among those that qualify, that no qualifying item exceeds in width; the
  empty string when none qualifies.
\<close>

definition widest_url :: "(media \<Rightarrow> bool) \<Rightarrow> media list \<Rightarrow> jsval" where
  "widest_url qualifies ms =
     (case find (\<lambda>m. qualifies m \<and>
                     list_all (\<lambda>m'. width m' \<le> width m) (filter qualifies ms)) ms of
        None \<Rightarrow> Str ''''
      | Some m \<Rightarrow> murl m)"

text \<open>An item of type "image" with width at most 300, in the words of the specification.\<close>

definition image_upto_300 :: "media \<Rightarrow> bool" where
  "image_upto_300 m = (mtype m = Str ''image'' \<and> width m \<le> 300)"

text \<open>An item of type "image" that is wider than \<open>w\<close> and at most 300 wide.\<close>

definition image_above :: "int \<Rightarrow> media \<Rightarrow> bool" where
  "image_above w m = (mtype m = Str ''image'' \<and> w < width m \<and> width m \<le> 300)"

text \<open>The card that the specification describes for an entry.\<close>

definition described_card :: "(media \<Rightarrow> bool) \<Rightarrow> entry \<Rightarrow> jsval" where
  "described_card qualifies e =
     Obj [(''title'', title e),
          (''url'', url e),
          (''description'', abstract e),
          (''image'', widest_url qualifies (multimedia e)),
          (''hostname'', Str ''nytimes'')]"

text \<open>The section of \<open>sid\<close> is registered and its \<open>enabled\<close> property is truthy.\<close>

definition section_enabled :: "string \<Rightarrow> host \<Rightarrow> bool" where
  "section_enabled sid h =
     (case map_of (sections h) sid of
        None \<Rightarrow> False
      | Some sec \<Rightarrow> truthy (get_prop sec ''enabled''))"

text \<open>
  The state machine of the specification, Uninitialized and Active, followed along a
  sequence of events: \<open>phase\<close> tells whether the last lifecycle event was an initialized
  event. A sequence is \<open>orderly\<close> when the two lifecycle events alternate, that is, no
  initialized event arrives in the Active phase, and an uninitialized event arrives only
  when the refresh that \<open>init\<close> awaits is no longer in flight.
\<close>

fun phase :: "bool \<Rightarrow> event \<Rightarrow> bool" where
  "phase active (Initialized now) = True"
| "phase active Uninitialized = False"
| "phase active (SystemTick now) = active"
| "phase active (RequestEnded i r now) = active"

fun admitted :: "bool \<Rightarrow> event \<Rightarrow> poller \<Rightarrow> bool" where
  "admitted active (Initialized now) p = (\<not> active)"
| "admitted active Uninitialized p = (FromInit \<notin> set (inflight p))"
| "admitted active (SystemTick now) p = True"
| "admitted active (RequestEnded i r now) p = True"

fun orderly :: "string \<Rightarrow> bool \<Rightarrow> event list \<Rightarrow> poller \<Rightarrow> bool" where
  "orderly sid active [] p = True"
| "orderly sid active (ev # evs) p =
     (admitted active ev p \<and> orderly sid (phase active ev) evs (step sid ev p))"

text \<open>The phase after a sequence of events.\<close>

fun phases :: "bool \<Rightarrow> event list \<Rightarrow> bool" where
  "phases active [] = active"
| "phases active (ev # evs) = phases (phase active ev) evs"

text \<open>
  The subscriptions of \<open>update\<close> that are live or still to come (a call of \<open>init\<close> that
  awaits its refresh subscribes when the request resolves): at most one in the Active
  phase, none in the Uninitialized phase.
\<close>

definition subscriptions_bounded :: "bool \<Rightarrow> poller \<Rightarrow> bool" where
  "subscriptions_bounded active p =
     (length (tick_listeners p) + count_list (inflight p) FromInit \<le> (if active then 1 else 0))"

section \<open>Example states\<close>

text \<open>
  The extension "ext": a host whose registry is initialized and holds the enabled section
  of the extension, an entry of the remote source, and a poller that is subscribed to the
  tick and holds a list fetched at time 1000.
\<close>

definition example_host :: host where
  "example_host =
     \<lparr>options = default_options ''ext'', initialized = True,
      sections = [(''ext'', [(''title'', Str ''ext''), (''enabled'', Bool True)])],
      pending = [], listeners = [], updates = [], fired = []\<rparr>"

definition example_entry :: entry where
  "example_entry =
     \<lparr>abstract = Str ''An abstract'', title = Str ''A title'', url = Str ''https://nyti.ms/1'',
      multimedia = [\<lparr>mtype = Str ''image'', width = 150, murl = Str ''small.jpg''\<rparr>,
                    \<lparr>mtype = Str ''image'', width = 320, murl = Str ''large.jpg''\<rparr>,
                    \<lparr>mtype = Str ''image'', width = 280, murl = Str ''medium.jpg''\<rparr>]\<rparr>"

definition example_poller :: poller where
  "example_poller =
     \<lparr>lastUpdated = Some 1000, cards = Some [to_card example_entry],
      tick_listeners = [Update], inflight = [], bridge = example_host\<rparr>"

section \<open>Construction: defaults and explicit nulls\<close>

lemma get_prop_set_prop:
  "get_prop (set_prop k v ob) k' = (if k' = k then v else get_prop ob k')"
  by (simp add: get_prop_def set_prop_def update_conv')

lemma map_of_object_assign:
  "distinct (map fst source) \<Longrightarrow>
   map_of (object_assign target source) = map_of target ++ map_of source"
proof (induction source arbitrary: target)
  case Nil
  then show ?case by (simp add: object_assign_def)
next
  case (Cons kv source)
  obtain k v where kv: "kv = (k, v)" by (cases kv)
  from Cons.prems kv have k: "k \<notin> dom (map_of source)" and d: "distinct (map fst source)"
    by (auto simp add: dom_map_of_conv_image_fst)
  have "object_assign target (kv # source) = object_assign (set_prop k v target) source"
    by (simp add: object_assign_def kv)
  moreover have "map_of (set_prop k v target) = (map_of target)(k \<mapsto> v)"
    by (simp only: set_prop_def update_conv')
  ultimately have "map_of (object_assign target (kv # source))
      = (map_of target)(k \<mapsto> v) ++ map_of source"
    using Cons.IH[OF d, of "set_prop k v target"] by (simp only:)
  also have "\<dots> = map_of target ++ map_of (kv # source)"
    using k by (simp add: kv map_add_upd_left)
  finally show ?case .
qed

lemma distinct_set_prop: "distinct (map fst ob) \<Longrightarrow> distinct (map fst (set_prop k v ob))"
  by (simp add: set_prop_def AList.distinct_update)

lemma distinct_object_assign:
  "distinct (map fst target) \<Longrightarrow> distinct (map fst (object_assign target source))"
  unfolding object_assign_def
proof (induction source arbitrary: target)
  case Nil
  then show ?case by simp
next
  case (Cons kv source)
  obtain k v where kv: "kv = (k, v)" by (cases kv)
  from Cons.prems have "distinct (map fst (set_prop k v target))" by (rule distinct_set_prop)
  from Cons.IH[OF this] show ?case by (simp add: kv)
qed

lemma get_prop_Null: "get_prop m k = Null \<longleftrightarrow> map_of m k = Some Null"
  by (simp add: get_prop_def split: option.splits)

lemma map_of_fold_null:
  "map_of (fold (\<lambda>prop m. if get_prop m prop = Null then set_prop prop Undefined m else m) ks m) k
     = (if k \<in> set ks \<and> map_of m k = Some Null then Some Undefined else map_of m k)"
  by (induction ks arbitrary: m) (auto simp add: get_prop_Null set_prop_def update_conv')

lemma map_of_null_to_undefined:
  "map_of (null_to_undefined ob) k =
     (if map_of ob k = Some Null then Some Undefined else map_of ob k)"
  by (auto simp add: null_to_undefined_def map_of_fold_null dest: map_of_SomeD
      intro: rev_image_eqI)

lemma distinct_fold_null:
  "distinct (map fst m) \<Longrightarrow>
   distinct (map fst (fold (\<lambda>prop m. if get_prop m prop = Null then set_prop prop Undefined m else m) ks m))"
proof (induction ks arbitrary: m)
  case Nil
  then show ?case by simp
next
  case (Cons k ks)
  show ?case
  proof (cases "get_prop m k = Null")
    case True
    from Cons.prems have "distinct (map fst (set_prop k Undefined m))" by (rule distinct_set_prop)
    from Cons.IH[OF this] True show ?thesis by simp
  next
    case False
    with Cons.IH[OF Cons.prems] show ?thesis by simp
  qed
qed

lemma distinct_null_to_undefined:
  "distinct (map fst ob) \<Longrightarrow> distinct (map fst (null_to_undefined ob))"
  by (simp add: null_to_undefined_def distinct_fold_null)

lemma resolve_icon_other:
  "resolve_icon getURL so = Inr ob \<Longrightarrow> k \<noteq> ''icon'' \<Longrightarrow> get_prop ob k = get_prop so k"
  by (auto simp add: resolve_icon_def Let_def get_prop_set_prop split: if_splits jsval.splits)

lemma resolve_icon_falsy:
  "resolve_icon getURL so = Inr ob \<Longrightarrow> \<not> truthy (get_prop so ''icon'') \<Longrightarrow> ob = so"
  by (auto simp add: resolve_icon_def Let_def split: if_splits jsval.splits)

text \<open>
  What the constructor does with the keys of a well-formed override, whenever it returns:
  a key set to null ends \<open>undefined\<close> in the built options, whatever the default; a
  key with another value overrides the default (the icon is resolved afterwards).
\<close>

lemma constructor_keys:
  assumes "distinct (map fst m)" and "API_constructor extension_id getURL (Some m) = Inr ob"
  shows "(map_of m k = Some Null \<longrightarrow> get_prop ob k = Undefined)
       \<and> (map_of m k = Some v \<and> v \<noteq> Null \<and> k \<noteq> ''icon'' \<longrightarrow> get_prop ob k = v)"
proof -
  let ?mo = "null_to_undefined (object_assign [] m)"
  let ?so = "object_assign (default_options extension_id) ?mo"
  have 1: "map_of (object_assign [] m) = map_of m"
    using assms(1) by (simp add: map_of_object_assign)
  have "distinct (map fst ?mo)"
    by (simp add: distinct_null_to_undefined distinct_object_assign)
  then have 2: "map_of ?so = map_of (default_options extension_id) ++ map_of ?mo"
    by (rule map_of_object_assign)
  have r: "resolve_icon getURL ?so = Inr ob"
    using assms(2) by (simp add: API_constructor_def Let_def)
  have a: "get_prop ?so k = Undefined" if "map_of m k = Some Null"
    using that by (simp add: get_prop_def 2 1 map_of_null_to_undefined map_add_def)
  have b: "get_prop ?so k = v" if "map_of m k = Some v" "v \<noteq> Null"
    using that by (simp add: get_prop_def 2 1 map_of_null_to_undefined map_add_def)
  show ?thesis
  proof (intro conjI impI)
    assume n: "map_of m k = Some Null"
    show "get_prop ob k = Undefined"
    proof (cases "k = ''icon''")
      case True
      with a[OF n] have "\<not> truthy (get_prop ?so ''icon'')" by simp
      from resolve_icon_falsy[OF r this] a[OF n] show ?thesis by simp
    next
      case False
      from resolve_icon_other[OF r False] a[OF n] show ?thesis by simp
    qed
  next
    assume "map_of m k = Some v \<and> v \<noteq> Null \<and> k \<noteq> ''icon''"
    then show "get_prop ob k = v" using resolve_icon_other[OF r] b by simp
  qed
qed

text \<open>
  Claim C1. Building the section options from a manifest override must give the default's
  value for every key that the override sets to null. The constructor turns the null into
  \<open>undefined\<close> but leaves the property on the override, and \<open>Object.assign\<close> copies it over
  the default: for the override \<open>{title: null}\<close> of the extension "ext" the built title is
  \<open>undefined\<close>, while the default title is the extension's id; the other defaults survive.
\<close>

theorem constructor_null_title_is_undefined:
  "API_constructor ''ext'' getURL (Some [(''title'', Null)]) =
     Inr ((''title'', Undefined) # tl (default_options ''ext''))
   \<and> get_prop ((''title'', Undefined) # tl (default_options ''ext'')) ''title'' = Undefined
   \<and> get_prop (default_options ''ext'') ''title'' = Str ''ext''"
  by (simp add: API_constructor_def object_assign_def null_to_undefined_def
      default_options_def resolve_icon_def get_prop_def set_prop_def)

section \<open>The setters\<close>

lemma options_onUpdateOption: "options (onUpdateOption sid h) = options h"
  by (simp add: onUpdateOption_def SM_onceInitialized_def updateSection_def
      SM_updateSection_def split: option.splits)

lemma call_setter_unfold:
  "call_setter s sid v h =
     onUpdateOption sid (h\<lparr>options := set_prop (written_field s) v (options h)\<rparr>)"
  by (cases s)
     (simp_all add: setTitle_def setIcon_def setMaxRows_def setEmptyState_def
        setInfoOption_def)

text \<open>Every setter writes one field of the options, the one named by \<open>written_field\<close>.\<close>

lemma call_setter_options:
  "get_prop (options (call_setter s sid v h)) k =
     (if k = written_field s then v else get_prop (options h) k)"
  by (simp add: call_setter_unfold options_onUpdateOption get_prop_set_prop)

text \<open>
  Claim C2. Each setter must set its own field of the section options (\<open>setIcon\<close> the field
  \<open>icon\<close>) and leave every other field as it was. \<open>setIcon\<close> assigns \<open>options.icons\<close>: the
  field \<open>icon\<close>, which the constructor reads and resolves, keeps its old value, and the
  field \<open>icons\<close> receives the argument.
\<close>

theorem setIcon_writes_icons:
  "get_prop (options (setIcon sid v h)) ''icon'' = get_prop (options h) ''icon''
   \<and> get_prop (options (setIcon sid v h)) ''icons'' = v
   \<and> get_prop (options (setIcon ''ext'' (Str ''star.png'') example_host)) ''icon'' = Undefined"
  by (simp add: setIcon_def options_onUpdateOption get_prop_set_prop)
     (simp add: example_host_def default_options_def get_prop_def)

section \<open>A refresh that fails\<close>

lemma map_entries_Some: "map_entries (map Some es) = Some (map to_card es)"
  by (induction es) simp_all

lemma map_entries_None: "None \<in> set es \<Longrightarrow> map_entries es = None"
proof (induction es)
  case Nil
  then show ?case by simp
next
  case (Cons e es)
  then show ?case by (cases e) (auto split: option.splits)
qed

lemma getCards_Results:
  "getCards (Results (map Some results)) = Some (map to_card (take 20 results))"
  by (simp add: getCards_def take_map map_entries_Some)

lemma getCards_failure:
  assumes "r = NetworkError \<or> r = Malformed
         \<or> (\<exists>results. r = Results results \<and> None \<in> set (take 20 results))"
  shows "getCards r = None"
  using assms by (auto simp add: getCards_def map_entries_None)

text \<open>
  Claim C3. When a refresh fails, by a network error or by a malformed body (one that
  does not parse, has no \<open>results\<close> array, or has among its first 20 results an element
  without a \<open>multimedia\<close> array), the cached card list and the rows of the section keep
  their contents. The promise of \<open>getCards\<close> never settles then, so whichever request in
  flight ends that way, the variables of the script, the tick listeners and the whole host
  state (the registry's sections with their rows among it) stay as they were; and a
  refresh that starts in state \<open>p\<close> and fails leaves exactly \<open>p\<close>.
\<close>

theorem failed_refresh_keeps_cards:
  assumes "r = NetworkError \<or> r = Malformed
         \<or> (\<exists>results. r = Results results \<and> None \<in> set (take 20 results))"
  shows "cards (step sid (RequestEnded i r now) p) = cards p
       \<and> lastUpdated (step sid (RequestEnded i r now) p) = lastUpdated p
       \<and> bridge (step sid (RequestEnded i r now) p) = bridge p
       \<and> tick_listeners (step sid (RequestEnded i r now) p) = tick_listeners p
       \<and> (stale p t \<longrightarrow>
            step sid (RequestEnded (length (inflight p)) r now) (update sid who t p) = p)"
  using getCards_failure[OF assms] by (auto simp add: update_def Let_def)

theorem failed_refresh_keeps_cards_witness:
  "cards (step ''ext'' (RequestEnded 0 Malformed 2000000)
            (update ''ext'' FromTick 1000000 example_poller))
     = Some [to_card example_entry]
   \<and> bridge (step ''ext'' (RequestEnded 0 Malformed 2000000)
               (update ''ext'' FromTick 1000000 example_poller))
     = example_host
   \<and> step ''ext'' (RequestEnded 0 NetworkError 2000000)
        (update ''ext'' FromTick 1000000 example_poller) = example_poller
   \<and> step ''ext'' (RequestEnded 0 (Results [Some example_entry, None]) 2000000)
        (update ''ext'' FromTick 1000000 example_poller) = example_poller"
  using failed_refresh_keeps_cards [where r = Malformed and sid = "''ext''" and i = 0
      and now = 2000000 and p = "update ''ext'' FromTick 1000000 example_poller"]
    failed_refresh_keeps_cards [where r = NetworkError and sid = "''ext''" and now = 2000000
      and p = example_poller and t = 1000000 and who = FromTick]
    failed_refresh_keeps_cards [where r = "Results [Some example_entry, None]"
      and sid = "''ext''" and now = 2000000 and p = example_poller and t = 1000000
      and who = FromTick]
  by (simp add: update_def stale_def UPDATE_INTERVAL_def example_poller_def)

section \<open>The tick\<close>

text \<open>
  Claim C4. On a tick while the poller is active (\<open>update\<close> is the tick's listener): if
  there is no cached list or the cache is older than 900000 ms, a request starts, and when
  it resolves the cache is replaced by the fetched list, the list is published to the
  bridge with broadcast enabled and the timestamp is set; otherwise a cached list exists,
  no request starts, the cache and its timestamp stay, and the cached list is published
  again with broadcast enabled.
\<close>

theorem tick_refresh_or_republish:
  assumes "tick_listeners p = [Update]"
  shows "(stale p now \<longleftrightarrow>
            cards p = None \<or> (\<exists>l. lastUpdated p = Some l \<and> now - l > 900000))
       \<and> (stale p now \<longrightarrow>
            step sid (SystemTick now) p = p\<lparr>inflight := inflight p @ [FromTick]\<rparr>
          \<and> step sid (RequestEnded (length (inflight p)) (Results (map Some results)) now')
                (step sid (SystemTick now) p)
              = p\<lparr>cards := Some (map to_card (take 20 results)),
                  bridge := addCards sid (Arr (map to_card (take 20 results))) True (bridge p),
                  lastUpdated := Some now'\<rparr>)
       \<and> (\<not> stale p now \<longrightarrow>
            (\<exists>cs. cards p = Some cs
                 \<and> step sid (SystemTick now) p
                   = p\<lparr>bridge := addCards sid (Arr cs) True (bridge p)\<rparr>))"
proof -
  have "stale p now \<longleftrightarrow> cards p = None \<or> (\<exists>l. lastUpdated p = Some l \<and> now - l > 900000)"
    by (auto simp add: stale_def UPDATE_INTERVAL_def split: option.splits)
  moreover have "step sid (SystemTick now) p = update sid FromTick now p"
    using assms by simp
  ultimately show ?thesis
    by (auto simp add: update_def update_resolved_def publish_def getCards_Results Let_def)
qed

theorem tick_refresh_or_republish_witness:
  "step ''ext'' (RequestEnded 0 (Results [Some example_entry]) 2000500)
     (step ''ext'' (SystemTick 2000000) example_poller)
     = example_poller\<lparr>cards := Some [to_card example_entry],
         bridge := addCards ''ext'' (Arr [to_card example_entry]) True example_host,
         lastUpdated := Some 2000500\<rparr>
   \<and> step ''ext'' (SystemTick 901000) example_poller
     = example_poller\<lparr>bridge := addCards ''ext'' (Arr [to_card example_entry]) True example_host\<rparr>"
  using tick_refresh_or_republish [where p = example_poller and now = 2000000
      and sid = "''ext''" and results = "[example_entry]" and now' = 2000500]
    tick_refresh_or_republish [where p = example_poller and now = 901000 and sid = "''ext''"]
  by (simp add: stale_def UPDATE_INTERVAL_def example_poller_def update_def
      update_resolved_def publish_def getCards_def)

section \<open>The fetched cards\<close>

lemma widest_exists:
  assumes "x \<in> set ms" and "q x"
  shows "\<exists>y \<in> set ms. q y \<and> (\<forall>z \<in> set ms. q z \<longrightarrow> width z \<le> width y)"
proof -
  let ?S = "width ` {z \<in> set ms. q z}"
  have fin: "finite ?S" by simp
  have ne: "?S \<noteq> {}" using assms by auto
  from Max_in[OF fin ne] obtain y where y: "y \<in> set ms" "q y" "width y = Max ?S" by auto
  have "width z \<le> width y" if "z \<in> set ms" "q z" for z
    using that y(3) Max_ge[OF fin, of "width z"] by auto
  with y show ?thesis by blast
qed

text \<open>
  The loop started from any \<open>image\<close> of width \<open>w\<close>: it ends with the first of the widest
  images that are wider than \<open>w\<close> and at most 300 wide, or with the \<open>image\<close> it started from.
\<close>

lemma fold_image_step:
  "fold image_step ms (w, u) =
     (case find (\<lambda>m. image_above w m \<and>
                     list_all (\<lambda>m'. width m' \<le> width m) (filter (image_above w) ms)) ms of
        None \<Rightarrow> (w, u)
      | Some m \<Rightarrow> (width m, murl m))"
proof (induction ms arbitrary: w u)
  case Nil
  then show ?case by simp
next
  case (Cons m ms)
  show ?case
  proof (cases "image_above w m")
    case False
    then have "fold image_step (m # ms) (w, u) = fold image_step ms (w, u)"
      by (auto simp add: image_step_def image_above_def)
    with False show ?thesis by (simp add: Cons.IH)
  next
    case True
    then have f: "fold image_step (m # ms) (w, u) = fold image_step ms (width m, murl m)"
      by (auto simp add: image_step_def image_above_def)
    show ?thesis
    proof (cases "list_all (\<lambda>m'. width m' \<le> width m) (filter (image_above w) ms)")
      case all: True
      then have "find (\<lambda>m'. image_above (width m) m' \<and>
                    list_all (\<lambda>m''. width m'' \<le> width m') (filter (image_above (width m)) ms))
                  ms = None"
        using True by (fastforce simp add: find_None_iff list_all_iff image_above_def)
      with True all f show ?thesis by (simp add: Cons.IH)
    next
      case notall: False
      then obtain x where x: "x \<in> set ms" "image_above w x" "width m < width x"
        by (auto simp add: list_all_iff)
      have "find (\<lambda>m'. image_above (width m) m' \<and>
                list_all (\<lambda>m''. width m'' \<le> width m') (filter (image_above (width m)) ms)) ms
          = find (\<lambda>m'. image_above w m' \<and>
                list_all (\<lambda>m''. width m'' \<le> width m') (filter (image_above w) (m # ms))) ms"
      proof (rule find_cong[OF refl])
        fix y assume "y \<in> set ms"
        show "(image_above (width m) y \<and>
                 list_all (\<lambda>m''. width m'' \<le> width y) (filter (image_above (width m)) ms))
           = (image_above w y \<and>
                 list_all (\<lambda>m''. width m'' \<le> width y) (filter (image_above w) (m # ms)))"
          using True x by (fastforce simp add: list_all_iff image_above_def)
      qed
      moreover
      from widest_exists[of x ms "image_above w", OF x(1) x(2)] obtain y where
        y: "y \<in> set ms" "image_above w y"
           "\<forall>z \<in> set ms. image_above w z \<longrightarrow> width z \<le> width y"
        by blast
      then have "width m \<le> width y" using x by fastforce
      with y have "find (\<lambda>m'. image_above w m' \<and>
                      list_all (\<lambda>m''. width m'' \<le> width m') (filter (image_above w) (m # ms)))
                    ms \<noteq> None"
        using True by (auto simp add: find_None_iff list_all_iff)
      ultimately show ?thesis using True notall f by (auto simp add: Cons.IH)
    qed
  qed
qed

lemma pick_image_widest: "snd (pick_image ms) = widest_url (image_above 0) ms"
  by (simp add: pick_image_def fold_image_step widest_url_def split: option.splits)

lemma to_card_described: "to_card e = described_card (image_above 0) e"
  by (simp add: to_card_def described_card_def pick_image_widest)

text \<open>
  Claim C5, as stated: for every response whose \<open>results\<close> is an array, the fetched list
  is the first 20 entries mapped to cards, and the image of a card is the url of the first
  of the widest items of type "image" with width at most 300. It fails for an entry whose
  only image has width 0: the loop starts from width 0 and takes strictly wider items
  only, so the card's image is the empty string and not the url of that item. It also
  fails for a \<open>results\<close> array with an element that has no \<open>multimedia\<close> array: the
  callback raises and no list is fetched.
\<close>

theorem getCards_image_of_width_zero:
  "getCards (Results [Some \<lparr>abstract = Str ''a'', title = Str ''t'', url = Str ''l'',
      multimedia = [\<lparr>mtype = Str ''image'', width = 0, murl = Str ''u''\<rparr>]\<rparr>])
   \<noteq> Some [described_card image_upto_300 \<lparr>abstract = Str ''a'', title = Str ''t'', url = Str ''l'',
      multimedia = [\<lparr>mtype = Str ''image'', width = 0, murl = Str ''u''\<rparr>]\<rparr>]
   \<and> getCards (Results [None]) = None"
  by (simp add: getCards_def to_card_def described_card_def pick_image_def image_step_def
      widest_url_def image_upto_300_def)

text \<open>
  Claim C5, amended: for every response whose \<open>results\<close> is an array whose first 20
  elements are entries with a \<open>multimedia\<close> array of items with integer widths, the
  fetched list is these entries, each mapped to a card with hostname "nytimes", the
  entry's abstract as description, and as image the url of the first of the widest items
  of type "image" whose width is greater than 0 and at most 300 (the empty string when
  there is none). For the widths 150, 320 and 280 the item of width 280 is chosen.
\<close>

theorem getCards_cards:
  assumes "take 20 results = map Some entries"
  shows "getCards (Results results) = Some (map (described_card (image_above 0)) entries)
       \<and> pick_image [\<lparr>mtype = Str ''image'', width = 150, murl = u1\<rparr>,
                     \<lparr>mtype = Str ''image'', width = 320, murl = u2\<rparr>,
                     \<lparr>mtype = Str ''image'', width = 280, murl = u3\<rparr>] = (280, u3)"
proof
  show "getCards (Results results) = Some (map (described_card (image_above 0)) entries)"
    using assms by (simp add: getCards_def map_entries_Some to_card_described)
next
  show "pick_image [\<lparr>mtype = Str ''image'', width = 150, murl = u1\<rparr>,
                     \<lparr>mtype = Str ''image'', width = 320, murl = u2\<rparr>,
                     \<lparr>mtype = Str ''image'', width = 280, murl = u3\<rparr>] = (280, u3)"
    by (simp add: pick_image_def image_step_def)
qed

theorem getCards_cards_witness:
  "getCards (Results [Some example_entry]) =
     Some [Obj [(''title'', Str ''A title''), (''url'', Str ''https://nyti.ms/1''),
                (''description'', Str ''An abstract''), (''image'', Str ''medium.jpg''),
                (''hostname'', Str ''nytimes'')]]"
proof -
  have "take 20 [Some example_entry] = map Some [example_entry]" by simp
  from getCards_cards [OF this] show ?thesis
    by (simp add: described_card_def widest_url_def image_above_def example_entry_def)
qed

section \<open>Adding cards\<close>

text \<open>
  Claim C6. \<open>addCards(cards, shouldBroadcast)\<close> on a registered section changes the rows of
  that section in the registry, and nothing else: the other properties of the section, the
  other sections and the rest of the host state stay, and one update with \<open>{rows: cards}\<close>
  and the given broadcast flag is issued. On a section that is not registered the call
  changes nothing at all: no update is issued and nothing is queued.
\<close>

theorem addCards_registered_or_dropped:
  "(map_of (sections h) sid = Some sec \<longrightarrow>
      addCards sid cs b h =
        h\<lparr>sections := AList.update sid (set_prop ''rows'' cs sec) (sections h),
          updates := updates h @ [(sid, [(''rows'', cs)], b)]\<rparr>
      \<and> get_prop (set_prop ''rows'' cs sec) ''rows'' = cs
      \<and> (\<forall>k. k \<noteq> ''rows'' \<longrightarrow> get_prop (set_prop ''rows'' cs sec) k = get_prop sec k)
      \<and> (\<forall>s. s \<noteq> sid \<longrightarrow>
            map_of (sections (addCards sid cs b h)) s = map_of (sections h) s))
   \<and> (\<not> SM_has sid h \<longrightarrow> addCards sid cs b h = h)"
  by (simp add: addCards_def SM_has_def SM_updateSection_def object_assign_def
      get_prop_set_prop update_conv')

theorem addCards_registered_or_dropped_witness:
  "addCards ''ext'' (Arr []) True example_host =
     example_host\<lparr>sections :=
         [(''ext'', [(''title'', Str ''ext''), (''enabled'', Bool True), (''rows'', Arr [])])],
       updates := [(''ext'', [(''rows'', Arr [])], True)]\<rparr>
   \<and> addCards ''ext'' (Arr []) True (new_host (default_options ''ext''))
     = new_host (default_options ''ext'')"
  using addCards_registered_or_dropped [where h = example_host and sid = "''ext''"
      and sec = "[(''title'', Str ''ext''), (''enabled'', Bool True)]" and cs = "Arr []"
      and b = True]
    addCards_registered_or_dropped [where h = "new_host (default_options ''ext'')"
      and sid = "''ext''" and cs = "Arr []" and b = True]
  by (simp add: example_host_def new_host_def set_prop_def SM_has_def)

section \<open>The initialized event\<close>

lemma fired_fold_deliver_enable:
  "fired (fold (deliver sid (ENABLE_SECTION s)) ls h) =
     fired h @
     (if s = sid
      then concat (map (\<lambda>l. case l of EnabledListener k \<Rightarrow> [k] | _ \<Rightarrow> []) ls)
      else [])"
proof (induction ls arbitrary: h)
  case Nil
  then show ?case by simp
next
  case (Cons l ls)
  then show ?case by (cases l) (simp_all add: enabledListener_def fire_async_def)
qed

lemma count_enabled_tokens:
  "count_list (concat (map (\<lambda>l. case l of EnabledListener k \<Rightarrow> [k] | _ \<Rightarrow> []) ls)) k
     = count_list ls (EnabledListener k)"
  by (induction ls) (auto split: listener.splits)

lemma listeners_fold_deliver: "listeners (fold (deliver sid n) ls h) = listeners h"
proof (induction ls arbitrary: h)
  case Nil
  then show ?case by simp
next
  case (Cons l ls)
  then show ?case
    by (cases l; cases n)
       (simp_all add: enabledListener_def initListener_def fire_async_def split: option.splits)
qed

lemma listeners_SM_emit: "listeners (SM_emit sid n h) = listeners h"
  by (simp add: SM_emit_def listeners_fold_deliver)

lemma listeners_run_callback: "listeners (run_callback sid cb h) = listeners h"
  by (cases cb)
     (simp_all add: updateSection_def SM_updateSection_def SM_enableSection_def SM_addSection_def
        listeners_SM_emit split: option.splits)

lemma listeners_onceInitialized: "listeners (SM_onceInitialized sid cb h) = listeners h"
  by (simp add: SM_onceInitialized_def listeners_run_callback del: run_callback.simps)

text \<open>The operations of the bridge leave the registered listeners alone.\<close>

lemma listeners_kept:
  "listeners (call_setter s sid v h) = listeners h"
  "listeners (enable sid h) = listeners h"
  "listeners (disable sid h) = listeners h"
  "listeners (addCards sid cs b h) = listeners h"
  by (simp_all add: call_setter_unfold onUpdateOption_def enable_def disable_def addCards_def
      listeners_onceInitialized SM_removeSection_def SM_updateSection_def
      split: option.splits)

lemma section_enabled_fire_async: "section_enabled sid (fire_async k h) = section_enabled sid h"
  by (simp add: section_enabled_def fire_async_def)

text \<open>
  The \<open>INIT\<close> notification fires every subscribed listener once when the section is
  registered and enabled, and none otherwise.
\<close>

lemma fired_fold_deliver_init:
  "fired (fold (deliver sid INIT) ls h) =
     fired h @
     (if section_enabled sid h
      then concat (map (\<lambda>l. case l of InitListener k \<Rightarrow> [k] | _ \<Rightarrow> []) ls)
      else [])"
proof (induction ls arbitrary: h)
  case Nil
  then show ?case by simp
next
  case (Cons l ls)
  show ?case
  proof (cases l)
    case (InitListener k)
    then show ?thesis
      using Cons[of "initListener sid k h"]
      by (auto simp add: initListener_def section_enabled_def fire_async_def split: option.splits)
  next
    case (EnabledListener k)
    then show ?thesis using Cons[of h] by simp
  qed
qed

lemma count_init_tokens:
  "count_list (concat (map (\<lambda>l. case l of InitListener k \<Rightarrow> [k] | _ \<Rightarrow> []) ls)) k
     = count_list ls (InitListener k)"
  by (induction ls) (auto split: listener.splits)

text \<open>
  Claim C7, as stated: the listener is fired exactly once for each enable transition that
  follows the subscription, never twice for one. It fails at the registry's
  initialisation. With \<open>enable\<close> called and the listener subscribed before the registry
  is initialized, a registry that serves its queue first adds and enables the section,
  which fires the listener, and then notifies \<open>INIT\<close>, which finds the section enabled
  and fires the listener again. A registry that notifies \<open>INIT\<close> first fires the listener
  twice as well when it already holds the enabled section: once at \<open>INIT\<close> and once
  when the queued \<open>enable\<close> runs. Either way one call of \<open>enable\<close> is followed by two
  calls of \<open>fire.async()\<close>.
\<close>

theorem one_enable_two_fires:
  "fired (SM_init True ''ext''
      (onInitialized_addListener ''ext'' 0
        (enable ''ext'' (new_host (default_options ''ext''))))) = [0, 0]
   \<and> fired (SM_init False ''ext''
      (onInitialized_addListener ''ext'' 0
        (enable ''ext''
          ((new_host (default_options ''ext''))
             \<lparr>sections := [(''ext'', [(''enabled'', Bool True)])]\<rparr>)))) = [0, 0]"
  by (simp add: SM_init_def SM_emit_def enable_def SM_onceInitialized_def
      onInitialized_addListener_def new_host_def SM_enableSection_def SM_addSection_def
      SM_has_def initListener_def enabledListener_def fire_async_def get_prop_def
      set_prop_def default_options_def Let_def)

text \<open>
  Claim C7, amended: subscribing a listener to \<open>onInitialized\<close> calls \<open>fire.async()\<close> for
  it during the subscription exactly when the registry is initialized and the section is
  registered and enabled at that moment. From then on, in every state in which the
  subscription is still registered, \<open>fire.async()\<close> is called for it exactly once at
  each \<open>ENABLE_SECTION\<close> notification that names this section (the function that
  \<open>enable\<close> hands to the registry causes one such notification; \<open>enable\<close> runs it at
  once on an initialized registry and queues it, without firing, otherwise), exactly once
  at each \<open>INIT\<close> notification that finds the section registered and enabled, and not at
  an \<open>INIT\<close> notification that does not, nor at a notification for another section.
\<close>

theorem onInitialized_fires:
  assumes "InitListener k \<notin> set (listeners h)" and "EnabledListener k \<notin> set (listeners h)"
  shows "fired (onInitialized_addListener sid k h) =
           fired h @ (if initialized h \<and> section_enabled sid h then [k] else [])
       \<and> count_list (listeners (onInitialized_addListener sid k h)) (InitListener k) = 1
       \<and> count_list (listeners (onInitialized_addListener sid k h)) (EnabledListener k) = 1
       \<and> (\<forall>h'. count_list (listeners h') (InitListener k) = 1
                \<and> count_list (listeners h') (EnabledListener k) = 1 \<longrightarrow>
            count_list (fired (SM_emit sid (ENABLE_SECTION sid) h')) k
              = count_list (fired h') k + 1
          \<and> (\<forall>s. s \<noteq> sid \<longrightarrow> fired (SM_emit sid (ENABLE_SECTION s) h') = fired h')
          \<and> count_list (fired (SM_emit sid INIT h')) k
              = count_list (fired h') k + (if section_enabled sid h' then 1 else 0)
          \<and> count_list (fired (run_callback sid EnableSection h')) k
              = count_list (fired h') k + 1
          \<and> (initialized h' \<longrightarrow> enable sid h' = run_callback sid EnableSection h')
          \<and> (\<not> initialized h' \<longrightarrow>
               enable sid h' = h'\<lparr>pending := pending h' @ [EnableSection]\<rparr>))"
proof -
  have a: "fired (onInitialized_addListener sid k h) =
           fired h @ (if initialized h \<and> section_enabled sid h then [k] else [])"
    by (simp add: onInitialized_addListener_def initListener_def fire_async_def
        section_enabled_def Let_def split: option.splits)
  have b: "count_list (listeners (onInitialized_addListener sid k h)) (InitListener k) = 1"
    "count_list (listeners (onInitialized_addListener sid k h)) (EnabledListener k) = 1"
    using assms
    by (simp_all add: onInitialized_addListener_def initListener_def fire_async_def Let_def
        split: option.splits)
  have c: "count_list (fired (SM_emit sid (ENABLE_SECTION sid) h')) k
             = count_list (fired h') k + 1"
    if "count_list (listeners h') (EnabledListener k) = 1" for h'
    using that by (simp add: SM_emit_def fired_fold_deliver_enable count_enabled_tokens)
  have d: "fired (SM_emit sid (ENABLE_SECTION s) h') = fired h'" if "s \<noteq> sid" for s h'
    using that by (simp add: SM_emit_def fired_fold_deliver_enable)
  have i: "count_list (fired (SM_emit sid INIT h')) k
             = count_list (fired h') k + (if section_enabled sid h' then 1 else 0)"
    if "count_list (listeners h') (InitListener k) = 1" for h'
    using that by (simp add: SM_emit_def fired_fold_deliver_init count_init_tokens)
  have e: "count_list (fired (run_callback sid EnableSection h')) k
             = count_list (fired h') k + 1"
    if "count_list (listeners h') (EnabledListener k) = 1" for h'
    using that
    by (simp add: SM_enableSection_def SM_addSection_def SM_emit_def
        fired_fold_deliver_enable count_enabled_tokens split: option.splits)
  have f: "enable sid h' = run_callback sid EnableSection h'" if "initialized h'" for h'
    using that by (simp add: enable_def SM_onceInitialized_def)
  have g: "enable sid h' = h'\<lparr>pending := pending h' @ [EnableSection]\<rparr>"
    if "\<not> initialized h'" for h'
    using that by (simp add: enable_def SM_onceInitialized_def)
  from a b c d i e f g show ?thesis by blast
qed

theorem onInitialized_fires_witness:
  "fired (onInitialized_addListener ''ext'' 0 example_host) = [0]
   \<and> fired (onInitialized_addListener ''ext'' 0 (new_host (default_options ''ext''))) = []
   \<and> count_list (fired (enable ''ext'' (onInitialized_addListener ''ext'' 0 example_host))) 0 = 2
   \<and> count_list (fired (SM_emit ''ext'' INIT
        (onInitialized_addListener ''ext'' 0 example_host))) 0 = 2"
proof -
  let ?h1 = "onInitialized_addListener ''ext'' 0 example_host"
  have fresh: "InitListener 0 \<notin> set (listeners example_host)"
    "EnabledListener 0 \<notin> set (listeners example_host)"
    by (simp_all add: example_host_def)
  have fresh': "InitListener 0 \<notin> set (listeners (new_host (default_options ''ext'')))"
    "EnabledListener 0 \<notin> set (listeners (new_host (default_options ''ext'')))"
    by (simp_all add: new_host_def)
  note t = onInitialized_fires [OF fresh, where sid = "''ext''"]
  note t' = onInitialized_fires [OF fresh', where sid = "''ext''"]
  from t have f1: "fired ?h1 = [0]"
    by (simp add: example_host_def section_enabled_def get_prop_def)
  from t' have f2: "fired (onInitialized_addListener ''ext'' 0 (new_host (default_options ''ext''))) = []"
    by (simp add: new_host_def)
  from t have c: "count_list (listeners ?h1) (InitListener 0) = 1
      \<and> count_list (listeners ?h1) (EnabledListener 0) = 1"
    by blast
  have i: "initialized ?h1" "section_enabled ''ext'' ?h1"
    by (simp_all add: onInitialized_addListener_def initListener_def fire_async_def
        example_host_def get_prop_def section_enabled_def)
  from t c have "count_list (fired (run_callback ''ext'' EnableSection ?h1)) 0
      = count_list (fired ?h1) 0 + 1"
    by blast
  moreover from t c i have "enable ''ext'' ?h1 = run_callback ''ext'' EnableSection ?h1"
    by blast
  ultimately have e: "count_list (fired (enable ''ext'' ?h1)) 0 = 2"
    using f1 by simp
  from t c have "count_list (fired (SM_emit ''ext'' INIT ?h1)) 0
      = count_list (fired ?h1) 0 + (if section_enabled ''ext'' ?h1 then 1 else 0)"
    by blast
  with i f1 have n: "count_list (fired (SM_emit ''ext'' INIT ?h1)) 0 = 2" by simp
  from f1 f2 e n show ?thesis by simp
qed

section \<open>The tick subscription\<close>

lemma count_list_without:
  "i < length xs \<Longrightarrow>
   count_list (take i xs @ drop (Suc i) xs) x + (if xs ! i = x then 1 else 0) = count_list xs x"
proof -
  assume "i < length xs"
  then have "xs = take i xs @ xs ! i # drop (Suc i) xs" by (rule id_take_nth_drop)
  then have "count_list xs x = count_list (take i xs @ xs ! i # drop (Suc i) xs) x" by simp
  then show ?thesis by simp
qed

lemma tick_keeps_subscriptions:
  "tick_listeners (fold (\<lambda>f. update sid FromTick now) ls p) = tick_listeners p
   \<and> count_list (inflight (fold (\<lambda>f. update sid FromTick now) ls p)) FromInit
       = count_list (inflight p) FromInit"
proof (induction ls arbitrary: p)
  case Nil
  then show ?case by simp
next
  case (Cons l ls)
  have "tick_listeners (update sid FromTick now p) = tick_listeners p
      \<and> count_list (inflight (update sid FromTick now p)) FromInit
          = count_list (inflight p) FromInit"
    by (simp add: update_def publish_def split: option.splits)
  with Cons[of "update sid FromTick now p"] show ?case by simp
qed

lemma removeAll_Update: "removeAll Update ls = []"
proof (induction ls)
  case Nil
  then show ?case by simp
next
  case (Cons l ls)
  then show ?case by (cases l) simp
qed

lemma step_keeps_bound:
  assumes "subscriptions_bounded active p" and "admitted active ev p"
  shows "subscriptions_bounded (phase active ev) (step sid ev p)"
proof (cases ev)
  case (Initialized now)
  with assms show ?thesis
    by (auto simp add: subscriptions_bounded_def init_def update_def publish_def
        addListener_def split: option.splits)
next
  case Uninitialized
  with assms show ?thesis
    by (simp add: subscriptions_bounded_def uninit_def removeListener_def removeAll_Update)
next
  case (SystemTick now)
  with assms show ?thesis
    by (simp add: subscriptions_bounded_def tick_keeps_subscriptions)
next
  case (RequestEnded i r now)
  show ?thesis
  proof (cases "i < length (inflight p)")
    case False
    with assms RequestEnded show ?thesis by (simp add: subscriptions_bounded_def)
  next
    case True
    note c = count_list_without[OF True, of FromInit]
    show ?thesis
    proof (cases "inflight p ! i")
      case FromInit
      with c have eq: "count_list (take i (inflight p) @ drop (Suc i) (inflight p)) FromInit + 1
          = count_list (inflight p) FromInit"
        by simp
      then have ge: "1 \<le> count_list (inflight p) FromInit" by linarith
      have bound: "length (tick_listeners p) + count_list (inflight p) FromInit
          \<le> (if active then 1 else 0)"
        using assms(1) by (simp add: subscriptions_bounded_def)
      have act: active
      proof (rule ccontr)
        assume "\<not> active"
        with bound ge show False by simp
      qed
      from bound act have b1: "length (tick_listeners p) + count_list (inflight p) FromInit \<le> 1"
        by simp
      from b1 ge have "length (tick_listeners p) = 0" by linarith
      then have emp: "tick_listeners p = []" by simp
      from eq b1 have rest:
        "count_list (take i (inflight p) @ drop (Suc i) (inflight p)) FromInit = 0"
        by linarith
      show ?thesis
        using RequestEnded True FromInit act emp rest
        by (auto simp add: subscriptions_bounded_def Let_def update_resolved_def publish_def
            addListener_def split: option.splits simp del: count_list_append)
    next
      case FromTick
      with assms RequestEnded True c show ?thesis
        by (auto simp add: subscriptions_bounded_def Let_def update_resolved_def publish_def
            split: option.splits if_splits)
    qed
  qed
qed

lemma orderly_keeps_bound:
  "subscriptions_bounded active p \<Longrightarrow> orderly sid active evs p \<Longrightarrow>
   subscriptions_bounded (phases active evs) (run sid evs p)"
proof (induction evs arbitrary: active p)
  case Nil
  then show ?case by (simp add: run_def)
next
  case (Cons ev evs)
  from Cons.prems have "subscriptions_bounded (phase active ev) (step sid ev p)"
    by (simp add: step_keeps_bound)
  moreover from Cons.prems have "orderly sid (phase active ev) evs (step sid ev p)" by simp
  ultimately have "subscriptions_bounded (phases (phase active ev) evs)
      (run sid evs (step sid ev p))"
    by (rule Cons.IH)
  then show ?case by (simp add: run_def)
qed

lemma orderly_take: "orderly sid active evs p \<Longrightarrow> orderly sid active (take n evs) p"
proof (induction evs arbitrary: active p n)
  case Nil
  then show ?case by simp
next
  case (Cons ev evs)
  then show ?case by (cases n) simp_all
qed

text \<open>
  Claim C8, as stated: whatever lifecycle events reach the poller, at most one
  subscription of \<open>update\<close> to the tick is live. \<open>init\<close> subscribes on line 50 without
  asking whether it has already done so: a second initialized event with no uninitialized
  event in between subscribes \<open>update\<close> a second time. So do an initialized, an
  uninitialized and a second initialized event that all arrive before the first refresh
  has resolved: \<open>uninit\<close> finds nothing to remove, and each of the two waiting calls of
  \<open>init\<close> subscribes when its request resolves.
\<close>

theorem two_initialized_events_subscribe_twice:
  "tick_listeners
     (run ''ext'' [Initialized 0, RequestEnded 0 (Results []) 5, Initialized 10]
        (new_poller example_host)) = [Update, Update]
   \<and> tick_listeners
     (run ''ext'' [Initialized 0, Uninitialized, Initialized 1,
                   RequestEnded 0 (Results []) 5, RequestEnded 0 (Results []) 6]
        (new_poller example_host)) = [Update, Update]"
  by (simp add: run_def new_poller_def init_def uninit_def update_def update_resolved_def
      publish_def getCards_def stale_def UPDATE_INTERVAL_def Let_def addListener_def
      removeListener_def)

text \<open>
  Claim C8, amended: when initialized and uninitialized events alternate, starting with
  an initialized event, and an uninitialized event arrives only when the refresh awaited
  by \<open>init\<close> is no longer in flight, then at every point of the sequence at most one
  subscription of \<open>update\<close> to the tick is live, and none is live while the last
  lifecycle event is an uninitialized one (\<open>uninit\<close> ends the subscription and nothing
  renews it). Ticks and the ends of requests may come in between in any order. The
  sequence init, uninit, init, with each refresh resolving before the next event, is of
  that kind, and after it the tick has exactly one listener.
\<close>

theorem one_tick_subscription:
  assumes "orderly sid False evs (new_poller h)"
  shows "length (tick_listeners (run sid (take n evs) (new_poller h))) \<le> 1
       \<and> (\<not> phases False (take n evs) \<longrightarrow>
            tick_listeners (run sid (take n evs) (new_poller h)) = [])
       \<and> orderly sid False
            [Initialized t1, RequestEnded 0 (Results (map Some r1)) t2, Uninitialized,
             Initialized t3, RequestEnded 0 (Results (map Some r2)) t4] (new_poller h)
       \<and> tick_listeners
           (run sid [Initialized t1, RequestEnded 0 (Results (map Some r1)) t2, Uninitialized,
                     Initialized t3, RequestEnded 0 (Results (map Some r2)) t4] (new_poller h))
           = [Update]"
proof -
  have "subscriptions_bounded False (new_poller h)"
    by (simp add: subscriptions_bounded_def new_poller_def)
  moreover from assms have "orderly sid False (take n evs) (new_poller h)"
    by (rule orderly_take)
  ultimately have "subscriptions_bounded (phases False (take n evs))
      (run sid (take n evs) (new_poller h))"
    by (rule orderly_keeps_bound)
  then have a: "length (tick_listeners (run sid (take n evs) (new_poller h))) \<le> 1"
    and b: "\<not> phases False (take n evs) \<longrightarrow>
            tick_listeners (run sid (take n evs) (new_poller h)) = []"
    by (auto simp add: subscriptions_bounded_def split: if_splits)
  have c: "orderly sid False
            [Initialized t1, RequestEnded 0 (Results (map Some r1)) t2, Uninitialized,
             Initialized t3, RequestEnded 0 (Results (map Some r2)) t4] (new_poller h)"
    by (simp add: new_poller_def init_def update_def update_resolved_def publish_def
        getCards_Results stale_def Let_def)
  have d: "tick_listeners
           (run sid [Initialized t1, RequestEnded 0 (Results (map Some r1)) t2, Uninitialized,
                     Initialized t3, RequestEnded 0 (Results (map Some r2)) t4] (new_poller h))
           = [Update]"
    by (simp add: run_def new_poller_def init_def uninit_def update_def update_resolved_def
        publish_def getCards_Results stale_def Let_def addListener_def removeListener_def)
  from a b c d show ?thesis by blast
qed

theorem one_tick_subscription_witness:
  "length (tick_listeners
      (run ''ext'' (take 2 [Initialized 0, RequestEnded 0 (Results []) 5, Uninitialized,
                            Initialized 10, RequestEnded 0 (Results []) 15])
         (new_poller example_host))) \<le> 1
   \<and> tick_listeners
       (run ''ext'' (take 3 [Initialized 0, RequestEnded 0 (Results []) 5, Uninitialized,
                             Initialized 10, RequestEnded 0 (Results []) 15])
          (new_poller example_host)) = []
   \<and> tick_listeners
       (run ''ext'' [Initialized 0, RequestEnded 0 (Results []) 5, Uninitialized,
                     Initialized 10, RequestEnded 0 (Results []) 15] (new_poller example_host))
     = [Update]"
proof -
  let ?evs = "[Initialized 0, RequestEnded 0 (Results []) 5, Uninitialized,
               Initialized 10, RequestEnded 0 (Results []) 15]"
  have o: "orderly ''ext'' False ?evs (new_poller example_host)"
    by (simp add: new_poller_def init_def update_def update_resolved_def publish_def
        getCards_def stale_def UPDATE_INTERVAL_def Let_def)
  from one_tick_subscription [OF o, where n = 2]
  have a: "length (tick_listeners (run ''ext'' (take 2 ?evs) (new_poller example_host))) \<le> 1"
    by blast
  have "\<not> phases False (take 3 ?evs)" by simp
  with one_tick_subscription [OF o, where n = 3]
  have b: "tick_listeners (run ''ext'' (take 3 ?evs) (new_poller example_host)) = []"
    by blast
  from one_tick_subscription [OF o, where n = 5 and ?t1.0 = 0 and ?r1.0 = "[]" and ?t2.0 = 5
      and ?t3.0 = 10 and ?r2.0 = "[]" and ?t4.0 = 15]
  have c: "tick_listeners (run ''ext'' ?evs (new_poller example_host)) = [Update]"
    by simp
  from a b c show ?thesis by blast
qed

section \<open>The update that a setter requests\<close>

text \<open>
  Claim C9. A setter writes its field and hands \<open>updateSection\<close> to the registry: run at
  once when the registry is initialized, queued otherwise. Whenever \<open>updateSection\<close> runs,
  it changes nothing if the section is not registered; otherwise it sends the whole
  options record, as it is at that moment, to the registry with the broadcast flag set.
\<close>

theorem setter_update_request:
  "(initialized h \<longrightarrow>
      call_setter s sid v h =
        updateSection sid (h\<lparr>options := set_prop (written_field s) v (options h)\<rparr>))
   \<and> (\<not> initialized h \<longrightarrow>
      call_setter s sid v h =
        h\<lparr>options := set_prop (written_field s) v (options h),
          pending := pending h @ [UpdateSection]\<rparr>)
   \<and> run_callback sid UpdateSection h' = updateSection sid h'
   \<and> (\<not> SM_has sid h' \<longrightarrow> updateSection sid h' = h')
   \<and> (SM_has sid h' \<longrightarrow>
        updateSection sid h' = SM_updateSection sid (options h') True h'
        \<and> updates (updateSection sid h') = updates h' @ [(sid, options h', True)]
        \<and> options (updateSection sid h') = options h')"
  by (auto simp add: call_setter_unfold onUpdateOption_def SM_onceInitialized_def
      updateSection_def SM_updateSection_def SM_has_def split: option.splits)

theorem setter_update_request_witness:
  "updates (call_setter SetTitle ''ext'' (Str ''News'') example_host)
     = [(''ext'', set_prop ''title'' (Str ''News'') (default_options ''ext''), True)]
   \<and> call_setter SetMaxRows ''ext'' (Num 2) (new_host (default_options ''ext''))
     = (new_host (default_options ''ext''))
         \<lparr>options := set_prop ''maxRows'' (Num 2) (default_options ''ext''),
          pending := [UpdateSection]\<rparr>
   \<and> run_callback ''ext'' UpdateSection (new_host (default_options ''ext''))
     = new_host (default_options ''ext'')"
  using setter_update_request [where h = example_host and s = SetTitle and sid = "''ext''"
      and v = "Str ''News''"
      and h' = "example_host\<lparr>options := set_prop ''title'' (Str ''News'') (options example_host)\<rparr>"]
    setter_update_request [where h = "new_host (default_options ''ext'')" and s = SetMaxRows
      and sid = "''ext''" and v = "Num 2" and h' = "new_host (default_options ''ext'')"]
  by (simp add: example_host_def new_host_def SM_has_def setTitle_def setMaxRows_def
      onUpdateOption_def SM_onceInitialized_def updateSection_def SM_updateSection_def)

section \<open>Initialisation of the poller\<close>

text \<open>
  Claim C10. On an initialized event the poller runs the refresh-and-publish step once and
  subscribes \<open>update\<close> to the tick only when that step has completed. If a refresh is
  needed, the event starts the request and leaves the tick's listeners as they are; the
  subscription is made when the request resolves, after the cache is replaced and
  published, and is not made when the request fails. If no refresh is needed, the cached
  list is published once and the subscription follows.
\<close>

theorem init_refresh_then_subscribe:
  "(stale p now \<longrightarrow>
      step sid (Initialized now) p = p\<lparr>inflight := inflight p @ [FromInit]\<rparr>
    \<and> step sid (RequestEnded (length (inflight p)) (Results (map Some results)) now')
          (step sid (Initialized now) p)
        = p\<lparr>cards := Some (map to_card (take 20 results)),
            bridge := addCards sid (Arr (map to_card (take 20 results))) True (bridge p),
            lastUpdated := Some now',
            tick_listeners := addListener Update (tick_listeners p)\<rparr>
    \<and> step sid (RequestEnded (length (inflight p)) NetworkError now')
          (step sid (Initialized now) p) = p
    \<and> step sid (RequestEnded (length (inflight p)) Malformed now')
          (step sid (Initialized now) p) = p)
   \<and> (\<not> stale p now \<longrightarrow>
        (\<exists>cs. cards p = Some cs
             \<and> step sid (Initialized now) p
               = p\<lparr>bridge := addCards sid (Arr cs) True (bridge p),
                   tick_listeners := addListener Update (tick_listeners p)\<rparr>))"
  by (auto simp add: init_def update_def update_resolved_def publish_def getCards_Results
      stale_def Let_def)
     (simp_all add: getCards_def)

theorem init_refresh_then_subscribe_witness:
  "tick_listeners (step ''ext'' (Initialized 0) (new_poller example_host)) = []
   \<and> step ''ext'' (RequestEnded 0 (Results [Some example_entry]) 1000)
       (step ''ext'' (Initialized 0) (new_poller example_host)) = example_poller
           \<lparr>bridge := addCards ''ext'' (Arr [to_card example_entry]) True example_host\<rparr>
   \<and> step ''ext'' (Initialized 2000) (example_poller\<lparr>tick_listeners := []\<rparr>)
     = example_poller\<lparr>bridge := addCards ''ext'' (Arr [to_card example_entry]) True example_host\<rparr>"
  using init_refresh_then_subscribe [where p = "new_poller example_host" and now = 0
      and sid = "''ext''" and results = "[example_entry]" and now' = 1000]
    init_refresh_then_subscribe [where p = "example_poller\<lparr>tick_listeners := []\<rparr>"
      and now = 2000 and sid = "''ext''"]
  by (simp add: stale_def UPDATE_INTERVAL_def example_poller_def new_poller_def
      addListener_def init_def update_def update_resolved_def publish_def getCards_def)

end
